theory Spec2Isabelle
  imports Complex_Main
begin

section \<open>County-split metrics (metrics.py)\<close>

text \<open>
  The metrics of \<^verbatim>\<open>metrics.py\<close> read a Python dictionary \<^verbatim>\<open>pops\<close> whose keys are pairs
  (county, district) and whose values are populations. The dictionary is embedded as an
  association list in insertion order; a Python dictionary holds every key once, which is
  the invariant \<open>wf_pops\<close>. Populations are Python integers, hence \<open>int\<close>.
\<close>

subsection \<open>Errors and fallible comprehensions\<close>

datatype py_error = KeyError | ValueError | ZeroDivisionError

text \<open>
  A list comprehension whose element expression may raise: the elements are evaluated from
  left to right and the first exception ends the evaluation.
\<close>

fun mapM :: "('a \<Rightarrow> py_error + 'b) \<Rightarrow> 'a list \<Rightarrow> py_error + 'b list" where
  "mapM f [] = Inr []"
| "mapM f (x # xs) =
     (case f x of
        Inl e \<Rightarrow> Inl e
      | Inr y \<Rightarrow> (case mapM f xs of Inl e \<Rightarrow> Inl e | Inr ys \<Rightarrow> Inr (y # ys)))"

text \<open>The same for a comprehension with a condition that may raise.\<close>

fun filterM :: "('a \<Rightarrow> py_error + bool) \<Rightarrow> 'a list \<Rightarrow> py_error + 'a list" where
  "filterM p [] = Inr []"
| "filterM p (x # xs) =
     (case p x of
        Inl e \<Rightarrow> Inl e
      | Inr b \<Rightarrow> (case filterM p xs of
                    Inl e \<Rightarrow> Inl e
                  | Inr ys \<Rightarrow> Inr (if b then x # ys else ys)))"

subsection \<open>Dictionaries\<close>

type_synonym ('c, 'd) pops = "(('c \<times> 'd) \<times> int) list"

definition wf_pops :: "('c, 'd) pops \<Rightarrow> bool" where
  "wf_pops pops = distinct (map fst pops)"

text \<open>\<^verbatim>\<open>for key in pops\<close>, \<^verbatim>\<open>pops.values()\<close>, \<^verbatim>\<open>pops[key]\<close> and \<^verbatim>\<open>pops.pop(key, None)\<close>.\<close>

definition keys :: "('c, 'd) pops \<Rightarrow> ('c \<times> 'd) list" where
  "keys pops = map fst pops"

definition values_of :: "('c, 'd) pops \<Rightarrow> int list" where
  "values_of pops = map snd pops"

definition getitem :: "('c, 'd) pops \<Rightarrow> 'c \<times> 'd \<Rightarrow> py_error + int" where
  "getitem pops key = (case map_of pops key of None \<Rightarrow> Inl KeyError | Some v \<Rightarrow> Inr v)"

definition dict_pop :: "'c \<times> 'd \<Rightarrow> ('c, 'd) pops \<Rightarrow> ('c, 'd) pops" where
  "dict_pop key pops = filter (\<lambda>kv. fst kv \<noteq> key) pops"

subsection \<open>The noise filter\<close>

text \<open>
  \<^verbatim>\<open>def threshold(pops, threshold=50)\<close> receives a reference to the caller's dictionary and works on that object:
  the store maps every reference to the dictionary it denotes, and the function returns
  the reference it hands back together with the store it leaves behind.
  \<^verbatim>\<open>
  keys_to_remove = [key for key in pops if pops[key] < threshold]
  for key in keys_to_remove:
      pops.pop(key, None)
  return pops
  \<close>
\<close>

type_synonym ref = nat

type_synonym ('c, 'd) store = "ref \<Rightarrow> ('c, 'd) pops"

definition default_threshold :: int where
  "default_threshold = 50"

definition threshold ::
  "ref \<Rightarrow> int \<Rightarrow> ('c, 'd) store \<Rightarrow> py_error + (ref \<times> ('c, 'd) store)" where
  "threshold pops t s =
     (case filterM (\<lambda>key. case getitem (s pops) key of
                             Inl e \<Rightarrow> Inl e
                           | Inr v \<Rightarrow> Inr (v < t)) (keys (s pops)) of
        Inl e \<Rightarrow> Inl e
      | Inr keys_to_remove \<Rightarrow>
          Inr (pops, fold (\<lambda>key s'. s'(pops := dict_pop key (s' pops))) keys_to_remove s))"

subsection \<open>Counting metrics\<close>

text \<open>
  \<^verbatim>\<open>set([key[0] for key in pops])\<close>: the counties, each once. A Python set is iterated in
  an order of its own; no result below depends on the order chosen here, except for the
  rounding of floating-point sums, which the embedding does not model.
\<close>

definition counties_of :: "('c, 'd) pops \<Rightarrow> 'c list" where
  "counties_of pops = remdups (map fst (keys pops))"

definition county_keys :: "('c, 'd) pops \<Rightarrow> 'c \<Rightarrow> ('c \<times> 'd) list" where
  "county_keys pops county = filter (\<lambda>key. fst key = county) (keys pops)"

definition counties_split :: "('c, 'd) pops \<Rightarrow> int" where
  "counties_split pops =
     sum_list (map (\<lambda>county. 1)
       (filter (\<lambda>county. length (county_keys pops county) > 1) (counties_of pops)))"

definition county_intersections :: "('c, 'd) pops \<Rightarrow> int" where
  "county_intersections pops = int (length pops)"

subsection \<open>Numbers\<close>

text \<open>
  The three ratio metrics compute with Python integers, Python floats and, in
  \<^verbatim>\<open>min_entropy\<close>, with \<^verbatim>\<open>numpy.float64\<close> values (what \<^verbatim>\<open>np.log2\<close> returns, and what any
  arithmetic with such a value returns). The two kinds of float differ where the metrics
  are degenerate: Python's true division raises \<^verbatim>\<open>ZeroDivisionError\<close> on a zero divisor,
  while numpy's division and logarithm only warn and return an infinity or NaN.

  Finite floating-point values are embedded as real numbers: rounding, overflow and
  underflow are not modelled. The special values are. A zero divisor is read as \<open>+0.0\<close>,
  which is what both divisors of \<^verbatim>\<open>min_entropy\<close> are when they are zero (an integer total
  converted to a float, and the sum \<^verbatim>\<open>1 + c_entropy\<close>).
\<close>

datatype npfloat = Fin real | PInf | NInf | NaN

datatype pynum = PyInt int | PyFloat real | NpFloat npfloat

fun np_add :: "npfloat \<Rightarrow> npfloat \<Rightarrow> npfloat" where
  "np_add NaN y = NaN"
| "np_add x NaN = NaN"
| "np_add (Fin a) (Fin b) = Fin (a + b)"
| "np_add PInf NInf = NaN"
| "np_add NInf PInf = NaN"
| "np_add PInf y = PInf"
| "np_add x PInf = PInf"
| "np_add NInf y = NInf"
| "np_add x NInf = NInf"

fun np_mul :: "npfloat \<Rightarrow> npfloat \<Rightarrow> npfloat" where
  "np_mul NaN y = NaN"
| "np_mul x NaN = NaN"
| "np_mul (Fin a) (Fin b) = Fin (a * b)"
| "np_mul PInf (Fin b) = (if b = 0 then NaN else if 0 < b then PInf else NInf)"
| "np_mul NInf (Fin b) = (if b = 0 then NaN else if 0 < b then NInf else PInf)"
| "np_mul (Fin a) PInf = (if a = 0 then NaN else if 0 < a then PInf else NInf)"
| "np_mul (Fin a) NInf = (if a = 0 then NaN else if 0 < a then NInf else PInf)"
| "np_mul PInf PInf = PInf"
| "np_mul NInf NInf = PInf"
| "np_mul PInf NInf = NInf"
| "np_mul NInf PInf = NInf"

fun np_div :: "npfloat \<Rightarrow> npfloat \<Rightarrow> npfloat" where
  "np_div NaN y = NaN"
| "np_div x NaN = NaN"
| "np_div (Fin a) (Fin b) =
     (if b \<noteq> 0 then Fin (a / b) else if a = 0 then NaN else if 0 < a then PInf else NInf)"
| "np_div (Fin a) PInf = Fin 0"
| "np_div (Fin a) NInf = Fin 0"
| "np_div PInf (Fin b) = (if 0 \<le> b then PInf else NInf)"
| "np_div NInf (Fin b) = (if 0 \<le> b then NInf else PInf)"
| "np_div x y = NaN"


fun to_np :: "pynum \<Rightarrow> npfloat" where
  "to_np (PyInt n) = Fin (of_int n)"
| "to_np (PyFloat r) = Fin r"
| "to_np (NpFloat x) = x"

text \<open>\<^verbatim>\<open>a + b\<close>, \<^verbatim>\<open>a * b\<close> and \<^verbatim>\<open>a / b\<close> on these numbers.\<close>

fun py_add :: "pynum \<Rightarrow> pynum \<Rightarrow> pynum" where
  "py_add (PyInt x) (PyInt y) = PyInt (x + y)"
| "py_add (PyInt x) (PyFloat y) = PyFloat (of_int x + y)"
| "py_add (PyFloat x) (PyInt y) = PyFloat (x + of_int y)"
| "py_add (PyFloat x) (PyFloat y) = PyFloat (x + y)"
| "py_add (NpFloat x) b = NpFloat (np_add x (to_np b))"
| "py_add a (NpFloat y) = NpFloat (np_add (to_np a) y)"


fun py_truediv :: "pynum \<Rightarrow> pynum \<Rightarrow> py_error + pynum" where
  "py_truediv (PyInt x) (PyInt y) =
     (if y = 0 then Inl ZeroDivisionError else Inr (PyFloat (of_int x / of_int y)))"
| "py_truediv (PyInt x) (PyFloat y) =
     (if y = 0 then Inl ZeroDivisionError else Inr (PyFloat (of_int x / y)))"
| "py_truediv (PyFloat x) (PyInt y) =
     (if y = 0 then Inl ZeroDivisionError else Inr (PyFloat (x / of_int y)))"
| "py_truediv (PyFloat x) (PyFloat y) =
     (if y = 0 then Inl ZeroDivisionError else Inr (PyFloat (x / y)))"
| "py_truediv (NpFloat x) b = Inr (NpFloat (np_div x (to_np b)))"
| "py_truediv a (NpFloat y) = Inr (NpFloat (np_div (to_np a) y))"


text \<open>\<^verbatim>\<open>max(xs)\<close> raises \<^verbatim>\<open>ValueError\<close> on an empty list.\<close>

fun py_max :: "int list \<Rightarrow> py_error + int" where
  "py_max [] = Inl ValueError"
| "py_max (x # xs) = Inr (fold max xs x)"

subsection \<open>Ratio metrics\<close>




text \<open>\<^verbatim>\<open>max([pops[key] for key in pops if key[0] == county])\<close>\<close>

definition county_max :: "('c, 'd) pops \<Rightarrow> 'c \<Rightarrow> py_error + int" where
  "county_max pops county =
     (case mapM (getitem pops) (county_keys pops county) of
        Inl e \<Rightarrow> Inl e
      | Inr vs \<Rightarrow> py_max vs)"

definition largest_intersection :: "('c, 'd) pops \<Rightarrow> py_error + pynum" where
  "largest_intersection pops =
     (case mapM (county_max pops) (counties_of pops) of
        Inl e \<Rightarrow> Inl e
      | Inr county_maxes \<Rightarrow>
          py_truediv (PyInt (sum_list county_maxes)) (PyInt (sum_list (values_of pops))))"




subsection \<open>The quantities of the specification\<close>

text \<open>
  The specification speaks of the entries of the mapping, of the counties and of a
  county's total population. These are its words as sums over finite sets, to be compared
  with what the code computes over lists.
\<close>

definition spec_counties :: "('c, 'd) pops \<Rightarrow> 'c set" where
  "spec_counties pops = (\<lambda>kv. fst (fst kv)) ` set pops"

definition spec_county_entries :: "('c, 'd) pops \<Rightarrow> 'c \<Rightarrow> (('c \<times> 'd) \<times> int) set" where
  "spec_county_entries pops c = {kv \<in> set pops. fst (fst kv) = c}"

definition spec_county_total :: "('c, 'd) pops \<Rightarrow> 'c \<Rightarrow> int" where
  "spec_county_total pops c = (\<Sum>kv\<in>spec_county_entries pops c. snd kv)"

definition spec_grand_total :: "('c, 'd) pops \<Rightarrow> int" where
  "spec_grand_total pops = (\<Sum>kv\<in>set pops. snd kv)"




definition spec_county_max :: "('c, 'd) pops \<Rightarrow> 'c \<Rightarrow> int" where
  "spec_county_max pops c = Max (snd ` spec_county_entries pops c)"

definition spec_max_total :: "('c, 'd) pops \<Rightarrow> int" where
  "spec_max_total pops = (\<Sum>c\<in>spec_counties pops. spec_county_max pops c)"



definition county_unsplit :: "('c, 'd) pops \<Rightarrow> bool" where
  "county_unsplit pops = distinct (map (\<lambda>kv. fst (fst kv)) pops)"


text \<open>The values of a county's entries, in the order of the dictionary.\<close>

definition county_values :: "('c, 'd) pops \<Rightarrow> 'c \<Rightarrow> int list" where
  "county_values pops c = map snd (filter (\<lambda>kv. fst (fst kv) = c) pops)"


subsection \<open>Sample mappings\<close>

definition scenario_pops :: "(string, string) pops" where
  "scenario_pops = [((''A'', ''1''), 100), ((''A'', ''2''), 0), ((''B'', ''1''), 50)]"


definition whole_pops :: "(string, string) pops" where
  "whole_pops = [((''A'', ''1''), 100), ((''B'', ''1''), 50)]"








section \<open>Properties of the noise filter\<close>

lemma getitem_member:
  assumes "wf_pops pops" and "(k, v) \<in> set pops"
  shows "getitem pops k = Inr v"
  using assms by (simp add: getitem_def wf_pops_def)

lemma filterM_total:
  assumes "\<And>x. x \<in> set xs \<Longrightarrow> p x = Inr (q x)"
  shows "filterM p xs = Inr (filter q xs)"
  using assms by (induction xs) auto

lemma mapM_total:
  assumes "\<And>x. x \<in> set xs \<Longrightarrow> f x = Inr (g x)"
  shows "mapM f xs = Inr (map g xs)"
  using assms by (induction xs) auto

lemma filterM_keys:
  assumes "\<And>kv. kv \<in> set xs \<Longrightarrow> p (fst kv) = Inr (q kv)"
  shows "filterM p (map fst xs) = Inr (map fst (filter q xs))"
  using assms by (induction xs) auto

lemma getitem_entry:
  assumes "wf_pops pops" and "kv \<in> set pops"
  shows "getitem pops (fst kv) = Inr (snd kv)"
  using getitem_member [OF assms(1), of "fst kv" "snd kv"] assms(2) by simp

lemma keys_to_remove_eq:
  assumes "wf_pops pops"
  shows "filterM (\<lambda>key. case getitem pops key of Inl e \<Rightarrow> Inl e | Inr v \<Rightarrow> Inr (v < t))
           (keys pops)
         = Inr (map fst (filter (\<lambda>kv. snd kv < t) pops))"
  unfolding keys_def
  by (rule filterM_keys) (simp add: getitem_entry [OF assms])

lemma wf_pops_same_key:
  assumes "wf_pops pops" and "kv \<in> set pops" and "kv' \<in> set pops" and "fst kv' = fst kv"
  shows "kv' = kv"
  using assms unfolding wf_pops_def by (simp add: distinct_map inj_on_def)

lemma fold_dict_pop:
  "fold (\<lambda>key s'. s'(r := dict_pop key (s' r))) ks s
   = s(r := filter (\<lambda>kv. fst kv \<notin> set ks) (s r))"
proof (induction ks arbitrary: s)
  case Nil
  then show ?case by simp
next
  case (Cons k ks)
  let ?F = "\<lambda>key s'. s'(r := dict_pop key (s' r))"
  let ?s1 = "s(r := dict_pop k (s r))"
  have h: "filter (\<lambda>kv. fst kv \<notin> set ks) (dict_pop k (s r))
           = filter (\<lambda>kv. fst kv \<notin> set (k # ks)) (s r)"
    by (auto simp: dict_pop_def intro: filter_cong)
  have "fold ?F (k # ks) s = fold ?F ks ?s1"
    by simp
  also have "\<dots> = ?s1(r := filter (\<lambda>kv. fst kv \<notin> set ks) (?s1 r))"
    by (rule Cons.IH)
  also have "\<dots> = s(r := filter (\<lambda>kv. fst kv \<notin> set (k # ks)) (s r))"
    using h by simp
  finally show ?case .
qed

lemma threshold_filter:
  assumes "wf_pops (s r)"
  shows "threshold r t s = Inr (r, s(r := filter (\<lambda>kv. \<not> snd kv < t) (s r)))"
proof -
  have "filter (\<lambda>kv. fst kv \<notin> set (map fst (filter (\<lambda>kv. snd kv < t) (s r)))) (s r)
        = filter (\<lambda>kv. \<not> snd kv < t) (s r)"
  proof (rule filter_cong [OF refl])
    fix kv assume kv: "kv \<in> set (s r)"
    show "(fst kv \<notin> set (map fst (filter (\<lambda>kv. snd kv < t) (s r)))) = (\<not> snd kv < t)"
    proof
      assume "fst kv \<notin> set (map fst (filter (\<lambda>kv. snd kv < t) (s r)))"
      then show "\<not> snd kv < t"
        using kv by force
    next
      assume h: "\<not> snd kv < t"
      show "fst kv \<notin> set (map fst (filter (\<lambda>kv. snd kv < t) (s r)))"
      proof
        assume "fst kv \<in> set (map fst (filter (\<lambda>kv. snd kv < t) (s r)))"
        then obtain kv' where kv': "kv' \<in> set (s r)" "snd kv' < t" "fst kv' = fst kv"
          by auto
        from wf_pops_same_key [OF assms kv kv'(1) kv'(3)] kv'(2) h show False
          by simp
      qed
    qed
  qed
  then show ?thesis
    by (simp add: threshold_def keys_to_remove_eq [OF assms] fold_dict_pop)
qed


text \<open>
  Claim C4. For a dictionary \<open>s pops\<close> and any threshold \<open>t\<close>, \<open>threshold\<close> raises nothing
  and leaves in the dictionary exactly the entries whose value is not strictly less than
  \<open>t\<close>: an entry with value \<open>< t\<close> is gone, an entry with value \<open>\<ge> t\<close> (also \<open>= t\<close>) is
  still there, in its place and with its value.
\<close>

theorem threshold_keeps_exactly:
  assumes "wf_pops (s pops)"
  shows "\<exists>s'. threshold pops t s = Inr (pops, s')
              \<and> s' pops = filter (\<lambda>kv. \<not> snd kv < t) (s pops)
              \<and> (\<forall>k v. (k, v) \<in> set (s' pops) \<longleftrightarrow> (k, v) \<in> set (s pops) \<and> t \<le> v)
              \<and> (\<forall>k v. (k, v) \<in> set (s pops) \<and> t \<le> v \<longrightarrow> getitem (s' pops) k = Inr v)
              \<and> (\<forall>k v. (k, v) \<in> set (s pops) \<and> v < t \<longrightarrow> getitem (s' pops) k = Inl KeyError)"
proof -
  let ?d = "filter (\<lambda>kv. \<not> snd kv < t) (s pops)"
  have wf': "wf_pops ?d"
    using assms by (simp add: wf_pops_def distinct_map_filter)
  have mem: "(k, v) \<in> set ?d \<longleftrightarrow> (k, v) \<in> set (s pops) \<and> t \<le> v" for k v
    by auto
  have kept: "getitem ?d k = Inr v" if "(k, v) \<in> set (s pops) \<and> t \<le> v" for k v
    using getitem_member [OF wf', of k v] that by simp
  have gone: "getitem ?d k = Inl KeyError" if h: "(k, v) \<in> set (s pops) \<and> v < t" for k v
  proof -
    have "k \<notin> fst ` set ?d"
    proof
      assume "k \<in> fst ` set ?d"
      then obtain kv where kv: "kv \<in> set (s pops)" "\<not> snd kv < t" "fst kv = k"
        by auto
      from h have "(k, v) \<in> set (s pops)" by simp
      from wf_pops_same_key [OF assms this kv(1)] kv(3) have "kv = (k, v)"
        by simp
      with kv(2) h show False by simp
    qed
    then have "map_of ?d k = None"
      by (simp add: map_of_eq_None_iff)
    then show ?thesis
      by (simp add: getitem_def)
  qed
  have "threshold pops t s = Inr (pops, s(pops := ?d))"
    using threshold_filter [of s pops t] assms by simp
  moreover have "(s(pops := ?d)) pops = ?d"
    by simp
  ultimately show ?thesis
    using mem kept gone by (intro exI [of _ "s(pops := ?d)"] conjI allI impI) simp_all
qed

theorem threshold_keeps_exactly_witness:
  "wf_pops scenario_pops
   \<and> (\<exists>s'. threshold 0 default_threshold (\<lambda>r. scenario_pops) = Inr (0, s')
          \<and> s' 0 = [((''A'', ''1''), 100), ((''B'', ''1''), 50)])"
proof -
  have wf: "wf_pops scenario_pops"
    by (simp add: wf_pops_def scenario_pops_def)
  from threshold_keeps_exactly [of "\<lambda>r. scenario_pops" 0 default_threshold] wf obtain s' where
    s': "threshold 0 default_threshold (\<lambda>r. scenario_pops) = Inr (0, s')"
        "s' 0 = filter (\<lambda>kv. \<not> snd kv < default_threshold) scenario_pops"
    by blast
  from s'(2) have "s' 0 = [((''A'', ''1''), 100), ((''B'', ''1''), 50)]"
    by (simp add: scenario_pops_def default_threshold_def)
  with wf s'(1) show ?thesis
    by blast
qed

text \<open>
  Claim C9. When no value of the dictionary is negative, filtering at threshold 0 removes
  nothing: \<open>county_intersections\<close> of the filtered dictionary is the number of entries the
  dictionary had before the call.
\<close>

theorem threshold_zero_preserves_count:
  assumes "wf_pops (s pops)" and "\<forall>kv\<in>set (s pops). 0 \<le> snd kv"
  shows "\<exists>s'. threshold pops 0 s = Inr (pops, s')
              \<and> county_intersections (s' pops) = int (length (s pops))
              \<and> county_intersections (s' pops) = county_intersections (s pops)"
proof -
  have "filter (\<lambda>kv. \<not> snd kv < 0) (s pops) = s pops"
    using assms(2) by (simp add: filter_id_conv not_less)
  then show ?thesis
    using threshold_filter [of s pops 0] assms(1) by (simp add: county_intersections_def)
qed

theorem threshold_zero_preserves_count_witness:
  "wf_pops scenario_pops \<and> list_all (\<lambda>v. 0 \<le> v) (values_of scenario_pops)
   \<and> (\<exists>s'. threshold 0 0 (\<lambda>r. scenario_pops) = Inr (0, s')
          \<and> county_intersections (s' 0) = 3)"
proof -
  have wf: "wf_pops scenario_pops"
    by (simp add: wf_pops_def scenario_pops_def)
  have nonneg: "\<forall>kv\<in>set scenario_pops. 0 \<le> snd kv"
    by (simp add: scenario_pops_def)
  from threshold_zero_preserves_count [of "\<lambda>r. scenario_pops" 0] wf nonneg obtain s' where
    s': "threshold 0 0 (\<lambda>r. scenario_pops) = Inr (0, s')"
        "county_intersections (s' 0) = int (length scenario_pops)"
    by blast
  from s'(2) have "county_intersections (s' 0) = 3"
    by (simp add: scenario_pops_def)
  moreover have "list_all (\<lambda>v. 0 \<le> v) (values_of scenario_pops)"
    by (simp add: scenario_pops_def values_of_def)
  ultimately show ?thesis
    using wf s'(1) by blast
qed



section \<open>Properties of the counting metrics\<close>

lemma distinct_counties_of: "distinct (counties_of pops)"
  by (simp add: counties_of_def)

lemma set_counties_of: "set (counties_of pops) = fst ` set (keys pops)"
  by (simp add: counties_of_def)

lemma distinct_keys: "wf_pops pops \<Longrightarrow> distinct (keys pops)"
  by (simp add: wf_pops_def keys_def)

lemma length_county_keys:
  assumes "wf_pops pops"
  shows "length (county_keys pops c) = card {k \<in> set (keys pops). fst k = c}"
proof -
  have "distinct (county_keys pops c)"
    using distinct_keys [OF assms] by (simp add: county_keys_def)
  then have "length (county_keys pops c) = card (set (county_keys pops c))"
    by (simp add: distinct_card)
  then show ?thesis
    by (simp add: county_keys_def)
qed

lemma sum_list_ones: "sum_list (map (\<lambda>x. 1::int) xs) = int (length xs)"
  by (induction xs) simp_all

lemma counties_split_card:
  assumes "wf_pops pops"
  shows "counties_split pops = int (card {c. 2 \<le> card {k \<in> set (keys pops). fst k = c}})"
    and "counties_split pops
         = int (card {c. \<exists>d d'. d \<noteq> d' \<and> (c, d) \<in> set (keys pops) \<and> (c, d') \<in> set (keys pops)})"
proof -
  let ?K = "\<lambda>c. {k \<in> set (keys pops). fst k = c}"
  let ?P = "\<lambda>c. 1 < length (county_keys pops c)"
  have "counties_split pops = int (length (filter ?P (counties_of pops)))"
    by (simp add: counties_split_def sum_list_ones)
  also have "length (filter ?P (counties_of pops)) = card (set (filter ?P (counties_of pops)))"
    by (rule distinct_card [symmetric]) (simp add: distinct_counties_of)
  also have "set (filter ?P (counties_of pops)) = {c. 2 \<le> card (?K c)}"
  proof -
    have "c \<in> fst ` set (keys pops)" if "2 \<le> card (?K c)" for c
    proof -
      have "?K c \<noteq> {}"
      proof
        assume "?K c = {}"
        then have "card (?K c) = 0" by (simp only: card.empty)
        with that show False by simp
      qed
      then obtain k where "k \<in> ?K c" by blast
      then show ?thesis by force
    qed
    then show ?thesis
      using length_county_keys [OF assms] by (auto simp: set_counties_of)
  qed
  finally show first: "counties_split pops = int (card {c. 2 \<le> card (?K c)})" .
  have "(2 \<le> card (?K c))
        = (\<exists>d d'. d \<noteq> d' \<and> (c, d) \<in> set (keys pops) \<and> (c, d') \<in> set (keys pops))" for c
  proof
    assume "2 \<le> card (?K c)"
    then have big: "\<not> card (?K c) \<le> Suc 0" by simp
    have fin: "finite (?K c)" by simp
    from big card_le_Suc0_iff_eq [OF fin]
    have "\<not> (\<forall>a\<in>?K c. \<forall>b\<in>?K c. a = b)"
      by blast
    then obtain k k' where "k \<in> ?K c" "k' \<in> ?K c" "k \<noteq> k'"
      by blast
    then show "\<exists>d d'. d \<noteq> d' \<and> (c, d) \<in> set (keys pops) \<and> (c, d') \<in> set (keys pops)"
      by (metis (mono_tags, lifting) mem_Collect_eq prod.collapse)
  next
    assume "\<exists>d d'. d \<noteq> d' \<and> (c, d) \<in> set (keys pops) \<and> (c, d') \<in> set (keys pops)"
    then obtain d d' where h: "d \<noteq> d'" "(c, d) \<in> ?K c" "(c, d') \<in> ?K c"
      by auto
    have "card {(c, d), (c, d')} \<le> card (?K c)"
      using h by (intro card_mono) auto
    then show "2 \<le> card (?K c)"
      using h(1) by simp
  qed
  with first show "counties_split pops
         = int (card {c. \<exists>d d'. d \<noteq> d' \<and> (c, d) \<in> set (keys pops) \<and> (c, d') \<in> set (keys pops)})"
    by simp
qed


text \<open>
  Claim C8. \<open>counties_split\<close> is the number of distinct counties that are the first
  component of two or more keys, which is the number of counties that meet more than one
  district.
\<close>

theorem counties_split_counts_split_counties:
  assumes "wf_pops pops"
  shows "counties_split pops = int (card {c. 2 \<le> card {k \<in> set (keys pops). fst k = c}})
         \<and> counties_split pops
           = int (card {c. \<exists>d d'. d \<noteq> d' \<and> (c, d) \<in> set (keys pops)
                                  \<and> (c, d') \<in> set (keys pops)})"
  using counties_split_card [OF assms] by simp

theorem counties_split_counts_split_counties_witness:
  "wf_pops scenario_pops
   \<and> int (card {c. 2 \<le> card {k \<in> set (keys scenario_pops). fst k = c}}) = 1"
proof -
  have wf: "wf_pops scenario_pops"
    by (simp add: wf_pops_def scenario_pops_def)
  have "counties_split scenario_pops = 1"
    by (simp add: counties_split_def counties_of_def county_keys_def keys_def scenario_pops_def)
  with counties_split_counts_split_counties [OF wf] wf show ?thesis
    by simp
qed

section \<open>Properties of the ratio metrics\<close>

lemma mapM_keys:
  assumes "\<And>kv. kv \<in> set xs \<Longrightarrow> f (fst kv) = Inr (g kv)"
  shows "mapM f (map fst xs) = Inr (map g xs)"
  using assms by (induction xs) auto

lemma county_keys_entries:
  "county_keys pops c = map fst (filter (\<lambda>kv. fst (fst kv) = c) pops)"
  by (simp add: county_keys_def keys_def filter_map comp_def)

lemma mapM_getitem_county:
  assumes "wf_pops pops"
  shows "mapM (getitem pops) (county_keys pops c) = Inr (county_values pops c)"
  unfolding county_keys_entries county_values_def
  by (rule mapM_keys) (simp add: getitem_entry [OF assms])

lemma distinct_pops: "wf_pops pops \<Longrightarrow> distinct pops"
  by (simp add: wf_pops_def distinct_map)








lemma set_counties_spec: "set (counties_of pops) = spec_counties pops"
  by (simp add: counties_of_def keys_def spec_counties_def image_image)

lemma sum_list_counties:
  "sum_list (map f (counties_of pops)) = sum f (spec_counties pops)"
proof -
  have "distinct (counties_of pops)"
    by (simp add: counties_of_def)
  then have "sum_list (map f (counties_of pops)) = sum f (set (counties_of pops))"
    by (rule sum_list_distinct_conv_sum_set)
  then show ?thesis
    by (simp only: set_counties_spec)
qed


lemma sum_list_pops:
  assumes "wf_pops pops"
  shows "sum_list (map f pops) = sum f (set pops)"
  using distinct_pops [OF assms] by (simp add: sum_list_distinct_conv_sum_set)







lemma sum_by_county:
  "(\<Sum>c\<in>spec_counties pops. \<Sum>kv\<in>spec_county_entries pops c. h kv) = sum h (set pops)"
  unfolding spec_counties_def spec_county_entries_def
  by (rule sum.group) simp_all







lemma py_max_eq:
  assumes "xs \<noteq> []"
  shows "py_max xs = Inr (Max (set xs))"
proof (cases xs)
  case Nil
  with assms show ?thesis by simp
next
  case (Cons x ys)
  then show ?thesis
    by (simp only: py_max.simps Max.set_eq_fold)
qed

lemma set_county_values:
  "set (county_values pops c) = snd ` spec_county_entries pops c"
  by (auto simp: county_values_def spec_county_entries_def)

lemma county_entries_nonempty:
  assumes "c \<in> spec_counties pops"
  shows "spec_county_entries pops c \<noteq> {}"
proof -
  from assms obtain kv where "kv \<in> set pops" "fst (fst kv) = c"
    by (auto simp: spec_counties_def)
  then have "kv \<in> spec_county_entries pops c"
    by (simp add: spec_county_entries_def)
  then show ?thesis
    by blast
qed

lemma county_values_nonempty:
  assumes "c \<in> spec_counties pops"
  shows "county_values pops c \<noteq> []"
proof
  assume "county_values pops c = []"
  then have "set (county_values pops c) = {}"
    by simp
  with county_entries_nonempty [OF assms] show False
    by (simp add: set_county_values)
qed

lemma county_max_eq:
  assumes "wf_pops pops" and "c \<in> spec_counties pops"
  shows "county_max pops c = Inr (spec_county_max pops c)"
  using py_max_eq [OF county_values_nonempty [OF assms(2)]]
  by (simp add: county_max_def mapM_getitem_county [OF assms(1)] set_county_values
      spec_county_max_def)

lemma sum_list_values: 
  assumes "wf_pops pops"
  shows "sum_list (values_of pops) = spec_grand_total pops"
  using sum_list_pops [OF assms, of snd] by (simp add: values_of_def spec_grand_total_def)

lemma largest_intersection_eq:
  assumes "wf_pops pops"
  shows "largest_intersection pops =
           (if spec_grand_total pops = 0 then Inl ZeroDivisionError
            else Inr (PyFloat (of_int (spec_max_total pops) / of_int (spec_grand_total pops))))"
proof -
  have "mapM (county_max pops) (counties_of pops)
        = Inr (map (spec_county_max pops) (counties_of pops))"
    by (rule mapM_total) (simp add: set_counties_spec county_max_eq [OF assms])
  then show ?thesis
    by (simp add: largest_intersection_def sum_list_counties sum_list_values [OF assms]
        spec_max_total_def)
qed

lemma grand_total_by_county:
  "(\<Sum>c\<in>spec_counties pops. spec_county_total pops c) = spec_grand_total pops"
  unfolding spec_county_total_def spec_grand_total_def by (rule sum_by_county)

lemma county_max_bounds:
  assumes "\<forall>kv\<in>set pops. 0 \<le> snd kv" and "c \<in> spec_counties pops"
  shows "0 \<le> spec_county_max pops c" and "spec_county_max pops c \<le> spec_county_total pops c"
proof -
  let ?E = "spec_county_entries pops c"
  have fin: "finite ?E"
    by (simp add: spec_county_entries_def)
  have ne: "?E \<noteq> {}"
    by (rule county_entries_nonempty [OF assms(2)])
  have nonneg: "\<forall>kv\<in>?E. 0 \<le> snd kv"
    using assms(1) by (simp add: spec_county_entries_def)
  have "Max (snd ` ?E) \<in> snd ` ?E"
    using fin ne by (intro Max_in) simp_all
  then obtain kv where kv: "kv \<in> ?E" "snd kv = Max (snd ` ?E)"
    by force
  from kv(1) nonneg have "0 \<le> snd kv"
    by blast
  with kv(2) show "0 \<le> spec_county_max pops c"
    by (simp add: spec_county_max_def)
  have "snd kv \<le> sum snd ?E"
    using fin kv(1) nonneg by (intro member_le_sum) simp_all
  with kv(2) show "spec_county_max pops c \<le> spec_county_total pops c"
    by (simp add: spec_county_max_def spec_county_total_def)
qed

lemma max_total_bounds:
  assumes "\<forall>kv\<in>set pops. 0 \<le> snd kv"
  shows "0 \<le> spec_max_total pops" and "spec_max_total pops \<le> spec_grand_total pops"
proof -
  show "0 \<le> spec_max_total pops"
    unfolding spec_max_total_def
    by (rule sum_nonneg) (rule county_max_bounds(1) [OF assms])
  have "spec_max_total pops \<le> (\<Sum>c\<in>spec_counties pops. spec_county_total pops c)"
    unfolding spec_max_total_def
    by (rule sum_mono) (rule county_max_bounds(2) [OF assms])
  then show "spec_max_total pops \<le> spec_grand_total pops"
    by (simp add: grand_total_by_county)
qed

lemma unsplit_wf: "county_unsplit pops \<Longrightarrow> wf_pops pops"
proof -
  assume "county_unsplit pops"
  then have "distinct (map fst (map fst pops))"
    by (simp add: county_unsplit_def comp_def)
  then show "wf_pops pops"
    unfolding wf_pops_def by (rule distinct_map [THEN iffD1, THEN conjunct1])
qed

lemma unsplit_entries:
  assumes "county_unsplit pops" and "c \<in> spec_counties pops"
  shows "\<exists>kv. spec_county_entries pops c = {kv}"
proof -
  from county_entries_nonempty [OF assms(2)] obtain kv where kv: "kv \<in> spec_county_entries pops c"
    by blast
  have inj: "inj_on (\<lambda>kv. fst (fst kv)) (set pops)"
    using assms(1) by (simp add: county_unsplit_def distinct_map)
  have "kv' = kv" if "kv' \<in> spec_county_entries pops c" for kv'
    using inj kv that by (auto simp: spec_county_entries_def inj_on_def)
  with kv have "spec_county_entries pops c = {kv}"
    by blast
  then show ?thesis ..
qed

lemma unsplit_max_total:
  assumes "county_unsplit pops"
  shows "spec_max_total pops = spec_grand_total pops"
proof -
  have "spec_county_max pops c = spec_county_total pops c" if "c \<in> spec_counties pops" for c
  proof -
    from unsplit_entries [OF assms that] obtain kv where "spec_county_entries pops c = {kv}" ..
    then show ?thesis
      by (simp add: spec_county_max_def spec_county_total_def)
  qed
  then have "spec_max_total pops = (\<Sum>c\<in>spec_counties pops. spec_county_total pops c)"
    by (simp add: spec_max_total_def)
  then show ?thesis
    by (simp add: grand_total_by_county)
qed

text \<open>
  Claim C6. On a non-empty dictionary of non-negative populations with a positive grand
  total, \<open>largest_intersection\<close> raises nothing and returns the sum over the counties of
  the county's largest entry divided by the grand total; the quotient lies between 0 and
  1, and it is 1 when every county has exactly one entry.
\<close>

theorem largest_intersection_formula:
  assumes "wf_pops pops" and "pops \<noteq> []" and "\<forall>kv\<in>set pops. 0 \<le> snd kv"
    and "0 < spec_grand_total pops"
  shows "largest_intersection pops
           = Inr (PyFloat (of_int (\<Sum>c\<in>spec_counties pops. spec_county_max pops c)
                           / of_int (spec_grand_total pops)))
         \<and> 0 \<le> (of_int (\<Sum>c\<in>spec_counties pops. spec_county_max pops c) :: real)
                 / of_int (spec_grand_total pops)
         \<and> (of_int (\<Sum>c\<in>spec_counties pops. spec_county_max pops c) :: real)
             / of_int (spec_grand_total pops) \<le> 1
         \<and> (county_unsplit pops \<longrightarrow> largest_intersection pops = Inr (PyFloat 1))"
proof -
  let ?q = "(of_int (spec_max_total pops) :: real) / of_int (spec_grand_total pops)"
  have pos: "(0 :: real) < of_int (spec_grand_total pops)"
    using assms(4) by simp
  have eq: "largest_intersection pops = Inr (PyFloat ?q)"
    using assms(4) by (simp add: largest_intersection_eq [OF assms(1)])
  have "(0 :: real) \<le> of_int (spec_max_total pops)"
    using max_total_bounds(1) [OF assms(3)] by simp
  then have lo: "0 \<le> ?q"
    using pos by simp
  have "(of_int (spec_max_total pops) :: real) \<le> of_int (spec_grand_total pops)"
    using max_total_bounds(2) [OF assms(3)] by (simp only: of_int_le_iff)
  then have hi: "?q \<le> 1"
    using pos by simp
  have one: "largest_intersection pops = Inr (PyFloat 1)" if "county_unsplit pops"
    using eq pos unsplit_max_total [OF that] by simp
  from eq lo hi one show ?thesis
    unfolding spec_max_total_def by blast
qed

theorem largest_intersection_formula_witness:
  "wf_pops whole_pops \<and> whole_pops \<noteq> [] \<and> list_all (\<lambda>v. 0 \<le> v) (values_of whole_pops)
   \<and> 0 < spec_grand_total whole_pops \<and> county_unsplit whole_pops
   \<and> largest_intersection whole_pops = Inr (PyFloat 1)"
proof -
  have wf: "wf_pops whole_pops"
    by (simp add: wf_pops_def whole_pops_def)
  have ne: "whole_pops \<noteq> []"
    by (simp add: whole_pops_def)
  have nonneg: "\<forall>kv\<in>set whole_pops. 0 \<le> snd kv"
    by (simp add: whole_pops_def)
  have "sum_list (values_of whole_pops) = 150"
    by (simp add: whole_pops_def values_of_def)
  then have pos: "0 < spec_grand_total whole_pops"
    by (simp add: sum_list_values [OF wf])
  have unsplit: "county_unsplit whole_pops"
    by (simp add: county_unsplit_def whole_pops_def)
  from largest_intersection_formula [OF wf ne nonneg pos] unsplit
  have "largest_intersection whole_pops = Inr (PyFloat 1)"
    by blast
  moreover have "list_all (\<lambda>v. 0 \<le> v) (values_of whole_pops)"
    by (simp add: whole_pops_def values_of_def)
  ultimately show ?thesis
    using wf ne pos unsplit by simp
qed

section \<open>Properties of the entropy metric\<close>






















section \<open>Degenerate and invalid inputs\<close>


lemma np_mul_NaN_right: "np_mul x NaN = NaN"
  by (cases x) simp_all

lemma np_div_NaN_right: "np_div x NaN = NaN"
  by (cases x) simp_all

lemma py_add_NaN_left: "py_add (NpFloat NaN) b = NpFloat NaN"
  by simp

























end
